theory Spec2Isabelle
  imports Main
begin

section \<open>Block children (packages/blocks/src/api/children.js)\<close>

subsection \<open>Data model\<close>

text \<open>
  A \<open>WPBlockChildren\<close> value is a JavaScript array whose items are either primitive
  strings or block node objects. The module never looks inside a node object, so the
  node payload is a type parameter: \<open>'n\<close> is the structural value of a node in the
  value-level model and an address in the store-level model further down.
\<close>

datatype 'n child = Str string | Node 'n

text \<open>\<^verbatim>\<open>typeof child === 'string'\<close>\<close>

fun is_string :: "'n child \<Rightarrow> bool" where
  "is_string (Str s) = True"
| "is_string (Node n) = False"

text \<open>
  One argument of \<open>concat\<close>: a single item (a string or a node) or an array of items.
\<close>

datatype 'n arg = One "'n child" | Many "'n child list"

text \<open>
  lodash \<open>castArray\<close>: an array is returned as it is, any other value \<open>v\<close> becomes
  \<open>[v]\<close>.
\<close>

fun castArray :: "'n arg \<Rightarrow> 'n child list" where
  "castArray (Many cs) = cs"
| "castArray (One c) = [c]"

subsection \<open>concat\<close>

text \<open>
  \<^verbatim>\<open>typeof child === 'string' && typeof result[ result.length - 1 ] === 'string'\<close>.
  On an empty \<open>result\<close> the read \<open>result[-1]\<close> is \<open>undefined\<close>, whose
  \<open>typeof\<close> is not \<open>'string'\<close>.
\<close>

definition canConcatToPreviousString :: "'n child list \<Rightarrow> 'n child \<Rightarrow> bool" where
  "canConcatToPreviousString result child \<longleftrightarrow>
     is_string child \<and> result \<noteq> [] \<and> is_string (last result)"

text \<open>
  The body of the inner loop: \<^verbatim>\<open>result[ result.length - 1 ] += child\<close> when both are
  strings, \<^verbatim>\<open>result.push( child )\<close> otherwise. The test is written out on the two
  values, so that the strings to append are at hand; \<open>concat_step_cases\<close> below
  restates it through \<open>canConcatToPreviousString\<close>.
\<close>

definition concat_step :: "'n child list \<Rightarrow> 'n child \<Rightarrow> 'n child list" where
  "concat_step result child =
     (case child of
        Str s \<Rightarrow>
          (if result = [] then result @ [child]
           else (case last result of
                   Str t \<Rightarrow> result[length result - 1 := Str (t @ s)]
                 | Node n \<Rightarrow> result @ [child]))
      | Node n \<Rightarrow> result @ [child])"

text \<open>The loop over \<open>j\<close>, through the items of one argument.\<close>

fun concat_inner :: "'n child list \<Rightarrow> 'n child list \<Rightarrow> 'n child list" where
  "concat_inner result [] = result"
| "concat_inner result (child # blockNode) = concat_inner (concat_step result child) blockNode"

text \<open>The loop over \<open>i\<close>, through the arguments.\<close>

fun concat_outer :: "'n child list \<Rightarrow> 'n arg list \<Rightarrow> 'n child list" where
  "concat_outer result [] = result"
| "concat_outer result (a # blockNodes) =
     concat_outer (concat_inner result (castArray a)) blockNodes"

definition concat_children :: "'n arg list \<Rightarrow> 'n child list" where
  "concat_children blockNodes = concat_outer [] blockNodes"

subsection \<open>Invariant I1\<close>

text \<open>No two consecutive items are both strings.\<close>

fun no_adjacent_text :: "'n child list \<Rightarrow> bool" where
  "no_adjacent_text [] = True"
| "no_adjacent_text [x] = True"
| "no_adjacent_text (x # y # xs) =
     (\<not> (is_string x \<and> is_string y) \<and> no_adjacent_text (y # xs))"

subsection \<open>fromDOM\<close>

text \<open>
  A JavaScript computation either throws or returns: \<open>Inl\<close> carries what was thrown,
  \<open>Inr\<close> what was returned. The single-node converter \<open>node.fromDOM\<close> comes from
  another module (\<open>./node\<close>) and is a parameter of the model; it may throw on any node.
\<close>

text \<open>
  The parameter \<open>domNodes\<close> is documented as \<open>Iterable.<Node>\<close>. An iterable is either
  array-like (an array, a \<open>NodeList\<close>: it has a \<open>length\<close> and its members are read by
  index) or not (a \<open>Set\<close>, a generator: it yields its members when iterated, but its
  \<open>length\<close> is \<open>undefined\<close> and so is every index read).
\<close>

datatype 'd collection = ArrayLike "'d list" | Unindexed "'d list"

text \<open>The nodes of a collection, in iteration order.\<close>

fun members :: "'d collection \<Rightarrow> 'd list" where
  "members (ArrayLike ds) = ds"
| "members (Unindexed ds) = ds"

text \<open>\<^verbatim>\<open>try { body } catch ( error ) { handler }\<close>\<close>

definition try_catch :: "'e + 'a \<Rightarrow> ('e \<Rightarrow> 'e + 'a) \<Rightarrow> 'e + 'a" where
  "try_catch body handler = (case body of Inl error \<Rightarrow> handler error | Inr v \<Rightarrow> Inr v)"

text \<open>
  \<^verbatim>\<open>result.push( node.fromDOM( domNodes[ i ] ) )\<close>: the argument is evaluated first, so
  a conversion that throws leaves \<open>result\<close> as it was.
\<close>

definition push_converted ::
  "('d \<Rightarrow> 'e + 'n child) \<Rightarrow> 'n child list \<Rightarrow> 'd \<Rightarrow> 'e + 'n child list" where
  "push_converted node_fromDOM result domNode =
     (case node_fromDOM domNode of
        Inl error \<Rightarrow> Inl error
      | Inr c \<Rightarrow> Inr (result @ [c]))"

text \<open>
  The body of the loop, turn by turn over the members of an array-like. The handler of the \<open>catch\<close> is empty: the loop goes on
  with \<open>result\<close> unchanged. Anything thrown outside the \<open>try\<close> would leave the loop.
\<close>

fun fromDOM_loop ::
  "('d \<Rightarrow> 'e + 'n child) \<Rightarrow> 'n child list \<Rightarrow> 'd list \<Rightarrow> 'e + 'n child list" where
  "fromDOM_loop node_fromDOM result [] = Inr result"
| "fromDOM_loop node_fromDOM result (domNode # domNodes) =
     (case try_catch (push_converted node_fromDOM result domNode) (\<lambda>error. Inr result) of
        Inl error \<Rightarrow> Inl error
      | Inr result' \<Rightarrow> fromDOM_loop node_fromDOM result' domNodes)"

text \<open>
  \<^verbatim>\<open>for ( let i = 0; i < domNodes.length; i++ )\<close>. On an array-like the loop visits the
  members by index. On an iterable without \<open>length\<close> the test \<^verbatim>\<open>0 < undefined\<close> is
  false at once: the body never runs and the empty \<open>result\<close> is returned.
\<close>

fun fromDOM :: "('d \<Rightarrow> 'e + 'n child) \<Rightarrow> 'd collection \<Rightarrow> 'e + 'n child list" where
  "fromDOM node_fromDOM (ArrayLike domNodes) = fromDOM_loop node_fromDOM [] domNodes"
| "fromDOM node_fromDOM (Unindexed domNodes) = Inr []"

text \<open>
  The items of the nodes that convert, in input order: what the specification says
  \<open>fromDOM\<close> returns for the members of its input.
\<close>

definition converted_items :: "('d \<Rightarrow> 'e + 'n child) \<Rightarrow> 'd list \<Rightarrow> 'n child list" where
  "converted_items node_fromDOM domNodes =
     List.concat (map (\<lambda>d. case node_fromDOM d of Inl error \<Rightarrow> [] | Inr c \<Rightarrow> [c]) domNodes)"


subsection \<open>matcher\<close>

text \<open>
  The selector is a string, \<open>null\<close> or \<open>undefined\<close> (\<open>None\<close>); it is truthy when it
  is a non-empty string. The DOM is reached through two members of a node:
  \<open>querySelector\<close>, which returns an element or \<open>null\<close>, and \<open>childNodes\<close>, a
  \<open>NodeList\<close> and so array-like. Both are parameters. A DOM node is an object, hence truthy, so \<^verbatim>\<open>if ( match )\<close> asks whether
  \<open>match\<close> is \<open>null\<close>.
\<close>

definition matcher ::
  "('d \<Rightarrow> string \<Rightarrow> 'd option) \<Rightarrow> ('d \<Rightarrow> 'd list) \<Rightarrow> ('d \<Rightarrow> 'e + 'n child) \<Rightarrow>
     string option \<Rightarrow> 'd \<Rightarrow> 'e + 'n child list" where
  "matcher querySelector childNodes node_fromDOM selector domNode =
     (let match = Some domNode;
          match = (case selector of
                     None \<Rightarrow> match
                   | Some s \<Rightarrow> if s \<noteq> [] then querySelector domNode s else match)
      in case match of
           Some m \<Rightarrow> fromDOM node_fromDOM (ArrayLike (childNodes m))
         | None \<Rightarrow> Inr [])"

subsection \<open>toHTML and toText\<close>

definition getSerializeCapableElement :: "'n child list \<Rightarrow> 'n child list" where
  "getSerializeCapableElement children = children"

text \<open>\<open>renderToString\<close> comes from \<open>@wordpress/element\<close> and is a parameter.\<close>

definition toHTML :: "('n child list \<Rightarrow> string) \<Rightarrow> 'n child list \<Rightarrow> string" where
  "toHTML renderToString children =
     (let element = getSerializeCapableElement children in renderToString element)"

text \<open>\<open>Array.prototype.join\<close> on an array of strings.\<close>

fun join :: "string \<Rightarrow> string list \<Rightarrow> string" where
  "join sep [] = []"
| "join sep [x] = x"
| "join sep (x # y # xs) = x @ sep @ join sep (y # xs)"

text \<open>\<open>getTextElements\<close> comes from \<open>@wordpress/element\<close> and is a parameter.\<close>

definition toText :: "('n child list \<Rightarrow> string list) \<Rightarrow> 'n child list \<Rightarrow> string" where
  "toText getTextElements children =
     (let element = getSerializeCapableElement children in join [] (getTextElements element))"

subsection \<open>Collaborators as the specification describes them\<close>

text \<open>
  A block node as the specification describes an \<open>InlineNode\<close>: a type, attributes and
  nested children.
\<close>

datatype wpnode = WPNode string "(string \<times> string) list" "wpnode child list"

text \<open>
  Modelled from the spec: \<open>getTextElements\<close> of \<open>@wordpress/element\<close> is not part of
  the sources at hand. The specification: it extracts every \<open>TextRun\<close> value across the
  whole nested tree, depth-first, the children of an \<open>InlineNode\<close> included, attributes
  excluded.
\<close>

function spec_text_of_item :: "wpnode child \<Rightarrow> string list" where
  "spec_text_of_item (Str s) = [s]"
| "spec_text_of_item (Node (WPNode t attrs kids)) = List.concat (map spec_text_of_item kids)"
  by pat_completeness auto
termination
proof (relation "measure (size_child size)")
  show "wf (measure (size_child size))" by simp
next
  fix t :: string and attrs :: "(string \<times> string) list" and kids :: "wpnode child list" and x
  assume "x \<in> set kids"
  then have "size_child size x \<le> size_list (size_child size) kids"
    by (simp add: size_list_estimation')
  then show "(x, Node (WPNode t attrs kids)) \<in> measure (size_child size)"
    by simp
qed

definition spec_getTextElements :: "wpnode child list \<Rightarrow> string list" where
  "spec_getTextElements element = List.concat (map spec_text_of_item element)"

text \<open>
  A small DOM for the scenarios of the specification: text nodes, comment nodes and
  elements with a tag name, a class and child nodes.
\<close>

datatype dom_node =
    TextNode string
  | CommentNode string
  | ElementNode string string "dom_node list"

fun dom_childNodes :: "dom_node \<Rightarrow> dom_node list" where
  "dom_childNodes (ElementNode tag cls kids) = kids"
| "dom_childNodes (TextNode s) = []"
| "dom_childNodes (CommentNode s) = []"

text \<open>
  Modelled from the spec: \<open>node.fromDOM\<close> of \<open>./node\<close> is not part of the sources at
  hand. The specification (scenario C): a text node converts to its text, the conversion
  of a comment node raises, an element converts to a node. Here the node carries the
  tag name only.
\<close>

fun spec_node_fromDOM :: "dom_node \<Rightarrow> string + string child" where
  "spec_node_fromDOM (TextNode s) = Inr (Str s)"
| "spec_node_fromDOM (CommentNode s) = Inl ''TypeError''"
| "spec_node_fromDOM (ElementNode tag cls kids) = Inr (Node tag)"

text \<open>
  Modelled from the spec: \<open>querySelector\<close> belongs to the DOM, not to the sources at
  hand. The specification: the first descendant matching the selector, or \<open>null\<close>.
  Here a selector is a dot and a class name, and descendants are searched in document
  order.
\<close>

fun spec_first_descendant :: "string \<Rightarrow> dom_node list \<Rightarrow> dom_node option" where
  "spec_first_descendant cls [] = None"
| "spec_first_descendant cls (TextNode s # rest) = spec_first_descendant cls rest"
| "spec_first_descendant cls (CommentNode s # rest) = spec_first_descendant cls rest"
| "spec_first_descendant cls (ElementNode tag c kids # rest) =
     (if c = cls then Some (ElementNode tag c kids)
      else (case spec_first_descendant cls kids of
              Some m \<Rightarrow> Some m
            | None \<Rightarrow> spec_first_descendant cls rest))"

definition spec_querySelector :: "dom_node \<Rightarrow> string \<Rightarrow> dom_node option" where
  "spec_querySelector root selector =
     (case selector of
        [] \<Rightarrow> None
      | c # cls \<Rightarrow> if c = CHR ''.'' then spec_first_descendant cls (dom_childNodes root) else None)"

subsection \<open>concat over a store\<close>

text \<open>
  The value-level model above cannot say that an argument is left unchanged. Here arrays
  and node objects live in a store and values refer to them by address, so that a write
  through one reference is seen through every other.

  A value is a primitive string (\<open>Str\<close>) or a reference to an object (\<open>Node a\<close>, with
  \<open>a\<close> an address). An object is an array of values or a node object with a type and
  properties. The store is the list of all objects; an address is a position in it.
\<close>

type_synonym addr = nat

type_synonym val = "addr child"

datatype obj = Arr "val list" | Obj string "(string \<times> val) list"

type_synonym heap = "obj list"

text \<open>Reading the object behind a reference; no object lies beyond the end of the store.\<close>

definition lookup :: "heap \<Rightarrow> addr \<Rightarrow> obj option" where
  "lookup h a = (if a < length h then Some (h ! a) else None)"

text \<open>A new object gets the next address, which nothing refers to yet.\<close>

definition alloc :: "heap \<Rightarrow> obj \<Rightarrow> heap \<times> addr" where
  "alloc h ob = (h @ [ob], length h)"

text \<open>
  lodash \<open>castArray\<close>: \<^verbatim>\<open>Array.isArray( value ) ? value : [ value ]\<close>. An array is
  returned itself, not a copy; for any other value a new one-element array is made.
  A reference to no object does not occur in JavaScript (\<open>None\<close>).
\<close>

definition castArray_h :: "heap \<Rightarrow> val \<Rightarrow> (heap \<times> addr) option" where
  "castArray_h h v =
     (case v of
        Str s \<Rightarrow> Some (alloc h (Arr [v]))
      | Node a \<Rightarrow>
          (case lookup h a of
             None \<Rightarrow> None
           | Some (Arr items) \<Rightarrow> Some (h, a)
           | Some (Obj t props) \<Rightarrow> Some (alloc h (Arr [v]))))"

text \<open>
  The loop over \<open>j\<close>. It reads \<open>blockNode.length\<close> and \<open>blockNode[ j ]\<close> from the store in
  every turn and writes to the array behind \<open>result\<close> only. Were \<open>result\<close> and
  \<open>blockNode\<close> the same array, the loop could go on for ever: \<open>None\<close> stands for that
  (and for a reference to no array).
\<close>

partial_function (option) concat_inner_h :: "heap \<Rightarrow> addr \<Rightarrow> addr \<Rightarrow> nat \<Rightarrow> heap option" where
  "concat_inner_h h result blockNode j =
     (case lookup h blockNode of
        Some (Arr items) \<Rightarrow>
          if j < length items then
            (case lookup h result of
               Some (Arr r) \<Rightarrow>
                 concat_inner_h (h[result := Arr (concat_step r (items ! j))]) result blockNode (Suc j)
             | _ \<Rightarrow> None)
          else Some h
      | _ \<Rightarrow> None)"

declare concat_inner_h.simps [code]

text \<open>
  The loop over \<open>i\<close>. The rest parameter \<open>blockNodes\<close> is an array made by the call
  itself, which no one else holds: a list of values.
\<close>

fun concat_outer_h :: "heap \<Rightarrow> addr \<Rightarrow> val list \<Rightarrow> heap option" where
  "concat_outer_h h result [] = Some h"
| "concat_outer_h h result (v # blockNodes) =
     (case castArray_h h v of
        None \<Rightarrow> None
      | Some (h1, blockNode) \<Rightarrow>
          (case concat_inner_h h1 result blockNode 0 of
             None \<Rightarrow> None
           | Some h2 \<Rightarrow> concat_outer_h h2 result blockNodes))"

text \<open>\<^verbatim>\<open>const result = [];\<close> allocates the result, which is returned by reference.\<close>

definition concat_h :: "heap \<Rightarrow> val list \<Rightarrow> (heap \<times> addr) option" where
  "concat_h h blockNodes =
     (case alloc h (Arr []) of
        (h0, result) \<Rightarrow>
          (case concat_outer_h h0 result blockNodes of
             None \<Rightarrow> None
           | Some h' \<Rightarrow> Some (h', result)))"

text \<open>A value of the caller refers to an object of the store, if it is a reference.\<close>

definition valid_ref :: "heap \<Rightarrow> val \<Rightarrow> bool" where
  "valid_ref h v = (case v of Str s \<Rightarrow> True | Node a \<Rightarrow> a < length h)"

text \<open>The argument of the value-level \<open>concat\<close> that a value stands for in a store.\<close>

definition arg_of :: "heap \<Rightarrow> val \<Rightarrow> addr arg" where
  "arg_of h v =
     (case v of
        Str s \<Rightarrow> One v
      | Node a \<Rightarrow>
          (case lookup h a of
             Some (Arr items) \<Rightarrow> Many items
           | _ \<Rightarrow> One v))"

subsection \<open>Specification-side notions for concat\<close>

text \<open>
  The flattening of the arguments in argument order and item order (a scalar argument as
  a one-element sequence).
\<close>

definition flatten_args :: "'n arg list \<Rightarrow> 'n child list" where
  "flatten_args blockNodes = List.concat (map castArray blockNodes)"

text \<open>
  Coalescing as the specification words it: wherever two strings stand next to each
  other they become one string, and nothing else changes.
\<close>

fun coalesce :: "'n child list \<Rightarrow> 'n child list" where
  "coalesce (Str a # Str b # xs) = coalesce (Str (a @ b) # xs)"
| "coalesce (x # xs) = x # coalesce xs"
| "coalesce [] = []"

text \<open>
  The content of a sequence read item by item: every character of every string and
  every node, in order. Merging two neighbouring strings leaves it unchanged; moving,
  dropping or duplicating an item does not.
\<close>

fun tokens :: "'n child \<Rightarrow> (char + 'n) list" where
  "tokens (Str s) = map Inl s"
| "tokens (Node n) = [Inr n]"

definition content :: "'n child list \<Rightarrow> (char + 'n) list" where
  "content xs = List.concat (map tokens xs)"

text \<open>The node items of a sequence, in order.\<close>

definition nodes_of :: "'n child list \<Rightarrow> 'n child list" where
  "nodes_of xs = filter (\<lambda>c. \<not> is_string c) xs"

section \<open>Properties of concat\<close>

lemma concat_step_cases:
  "concat_step result child =
     (if canConcatToPreviousString result child
      then (case (last result, child) of
              (Str t, Str s) \<Rightarrow> butlast result @ [Str (t @ s)]
            | _ \<Rightarrow> result @ [child])
      else result @ [child])"
proof (cases "result = []")
  case True
  then show ?thesis
    by (simp add: concat_step_def canConcatToPreviousString_def split: child.splits)
next
  case False
  then have upd: "result[length result - Suc 0 := v] = butlast result @ [v]" for v
    by (cases result rule: rev_cases) simp_all
  from False show ?thesis
    by (simp add: concat_step_def canConcatToPreviousString_def upd split: child.splits)
qed

lemma no_adjacent_text_snoc:
  "no_adjacent_text (xs @ [c]) \<longleftrightarrow>
     no_adjacent_text xs \<and> (xs = [] \<or> \<not> (is_string (last xs) \<and> is_string c))"
  by (induction xs rule: no_adjacent_text.induct) auto

lemma no_adjacent_text_step:
  assumes "no_adjacent_text result"
  shows "no_adjacent_text (concat_step result child)"
proof (cases "canConcatToPreviousString result child")
  case False
  with assms show ?thesis
    by (auto simp: concat_step_cases no_adjacent_text_snoc canConcatToPreviousString_def)
next
  case True
  then obtain s t ys where c: "child = Str s" and r: "result = ys @ [Str t]"
    unfolding canConcatToPreviousString_def
    by (cases child; cases result rule: rev_cases; cases "last result") auto
  from assms r have "no_adjacent_text ys" and "ys = [] \<or> \<not> is_string (last ys)"
    by (simp_all add: no_adjacent_text_snoc)
  then have "no_adjacent_text (ys @ [Str (t @ s)])"
    by (simp add: no_adjacent_text_snoc)
  with True c r show ?thesis
    by (simp add: concat_step_cases)
qed

lemma no_adjacent_text_inner:
  "no_adjacent_text result \<Longrightarrow> no_adjacent_text (concat_inner result blockNode)"
  by (induction blockNode arbitrary: result) (simp_all add: no_adjacent_text_step)

lemma no_adjacent_text_outer:
  "no_adjacent_text result \<Longrightarrow> no_adjacent_text (concat_outer result blockNodes)"
  by (induction blockNodes arbitrary: result) (simp_all add: no_adjacent_text_inner)

lemma no_adjacent_text_nth:
  "no_adjacent_text xs \<longleftrightarrow>
     (\<forall>i. Suc i < length xs \<longrightarrow> \<not> (is_string (xs ! i) \<and> is_string (xs ! Suc i)))"
proof (induction xs rule: no_adjacent_text.induct)
  case (3 x y xs)
  show ?case
  proof
    assume l: "no_adjacent_text (x # y # xs)"
    show "\<forall>i. Suc i < length (x # y # xs) \<longrightarrow>
            \<not> (is_string ((x # y # xs) ! i) \<and> is_string ((x # y # xs) ! Suc i))"
    proof (intro allI impI)
      fix i assume "Suc i < length (x # y # xs)"
      with l 3 show "\<not> (is_string ((x # y # xs) ! i) \<and> is_string ((x # y # xs) ! Suc i))"
        by (cases i) auto
    qed
  next
    assume r: "\<forall>i. Suc i < length (x # y # xs) \<longrightarrow>
            \<not> (is_string ((x # y # xs) ! i) \<and> is_string ((x # y # xs) ! Suc i))"
    from r [rule_format, of 0] have h: "\<not> (is_string x \<and> is_string y)" by simp
    have "\<forall>i. Suc i < length (y # xs) \<longrightarrow>
            \<not> (is_string ((y # xs) ! i) \<and> is_string ((y # xs) ! Suc i))"
    proof (intro allI impI)
      fix i assume "Suc i < length (y # xs)"
      with r [rule_format, of "Suc i"]
      show "\<not> (is_string ((y # xs) ! i) \<and> is_string ((y # xs) ! Suc i))" by simp
    qed
    with 3 h show "no_adjacent_text (x # y # xs)" by simp
  qed
qed simp_all

lemma concat_step_step:
  "concat_step (concat_step r (Str a)) (Str b) = concat_step r (Str (a @ b))"
  by (cases r rule: rev_cases)
     (auto simp: concat_step_cases canConcatToPreviousString_def butlast_append split: child.splits)

lemma concat_inner_coalesce:
  "concat_inner r (coalesce ys) = concat_inner r ys"
  by (induction ys arbitrary: r rule: coalesce.induct) (simp_all add: concat_step_step)

lemma no_adjacent_text_Cons:
  "no_adjacent_text (x # ys) \<longleftrightarrow>
     (ys = [] \<or> \<not> (is_string x \<and> is_string (hd ys))) \<and> no_adjacent_text ys"
  by (cases ys) simp_all


lemma no_adjacent_text_coalesce: "no_adjacent_text (coalesce xs)"
proof (induction xs rule: coalesce.induct)
  case (1 a b xs)
  then show ?case by simp
qed (auto simp: no_adjacent_text_Cons)

lemma no_adjacent_text_appendD:
  "no_adjacent_text (xs @ ys) \<Longrightarrow> no_adjacent_text xs"
  by (induction xs rule: no_adjacent_text.induct) (auto simp: no_adjacent_text_Cons)

lemma concat_inner_normal:
  "no_adjacent_text (r @ xs) \<Longrightarrow> concat_inner r xs = r @ xs"
proof (induction xs arbitrary: r)
  case Nil
  then show ?case by simp
next
  case (Cons x xs)
  from Cons.prems have n: "no_adjacent_text ((r @ [x]) @ xs)" by simp
  then have "no_adjacent_text (r @ [x])"
    by (rule no_adjacent_text_appendD)
  then have "concat_step r x = r @ [x]"
    by (auto simp: concat_step_cases no_adjacent_text_snoc canConcatToPreviousString_def)
  with Cons.IH [OF n] show ?case by simp
qed

lemma concat_inner_eq_coalesce: "concat_inner [] xs = coalesce xs"
proof -
  have "concat_inner [] xs = concat_inner [] (coalesce xs)"
    by (simp add: concat_inner_coalesce)
  also have "\<dots> = coalesce xs"
    using concat_inner_normal [of "[]" "coalesce xs"] by (simp add: no_adjacent_text_coalesce)
  finally show ?thesis .
qed

lemma concat_inner_append:
  "concat_inner r (xs @ ys) = concat_inner (concat_inner r xs) ys"
  by (induction xs arbitrary: r) simp_all

lemma concat_outer_flatten:
  "concat_outer r blockNodes = concat_inner r (flatten_args blockNodes)"
  by (induction blockNodes arbitrary: r) (simp_all add: flatten_args_def concat_inner_append)

lemma concat_children_coalesce:
  "concat_children blockNodes = coalesce (flatten_args blockNodes)"
  by (simp add: concat_children_def concat_outer_flatten concat_inner_eq_coalesce)

lemma content_step: "content (concat_step r c) = content r @ tokens c"
  by (cases r rule: rev_cases)
     (auto simp: concat_step_cases canConcatToPreviousString_def content_def butlast_append split: child.splits)

lemma content_inner: "content (concat_inner r xs) = content r @ content xs"
  by (induction xs arbitrary: r) (simp_all add: content_step, simp_all add: content_def)

lemma nodes_of_step: "nodes_of (concat_step r c) = nodes_of (r @ [c])"
  by (cases r rule: rev_cases)
     (auto simp: concat_step_cases canConcatToPreviousString_def nodes_of_def butlast_append split: child.splits)

lemma nodes_of_append: "nodes_of (xs @ ys) = nodes_of xs @ nodes_of ys"
  by (simp add: nodes_of_def)

lemma nodes_of_inner: "nodes_of (concat_inner r xs) = nodes_of (r @ xs)"
proof (induction xs arbitrary: r)
  case Nil
  show ?case by simp
next
  case (Cons x xs)
  have "nodes_of (concat_inner r (x # xs)) = nodes_of (concat_step r x @ xs)"
    by (simp add: Cons.IH)
  also have "\<dots> = nodes_of ((r @ [x]) @ xs)"
    by (simp only: nodes_of_append nodes_of_step)
  finally show ?case by simp
qed

lemma coalesce_idem: "coalesce (coalesce xs) = coalesce xs"
  using concat_inner_coalesce [of "[]" xs] by (simp add: concat_inner_eq_coalesce)

lemma coalesce_append_left: "coalesce (coalesce xs @ ys) = coalesce (xs @ ys)"
proof -
  have "coalesce (coalesce xs @ ys) = concat_inner (concat_inner [] (coalesce xs)) ys"
    by (simp only: concat_inner_eq_coalesce [symmetric] concat_inner_append)
  also have "\<dots> = concat_inner (concat_inner [] xs) ys"
    by (simp only: concat_inner_coalesce)
  also have "\<dots> = coalesce (xs @ ys)"
    by (simp only: concat_inner_eq_coalesce [symmetric] concat_inner_append)
  finally show ?thesis .
qed

lemma coalesce_append_right: "coalesce (xs @ coalesce ys) = coalesce (xs @ ys)"
proof -
  have "coalesce (xs @ coalesce ys) = concat_inner (concat_inner [] xs) (coalesce ys)"
    by (simp only: concat_inner_eq_coalesce [symmetric] concat_inner_append)
  also have "\<dots> = concat_inner (concat_inner [] xs) ys"
    by (simp only: concat_inner_coalesce)
  also have "\<dots> = coalesce (xs @ ys)"
    by (simp only: concat_inner_eq_coalesce [symmetric] concat_inner_append)
  finally show ?thesis .
qed

lemma concat_outer_append:
  "concat_outer r (as @ bs) = concat_outer (concat_outer r as) bs"
  by (induction as arbitrary: r) simp_all

lemma concat_step_merge: "concat_step (r @ [Str t]) (Str s) = r @ [Str (t @ s)]"
  by (simp add: concat_step_def)

text \<open>
  C1. Whatever the arguments, the array returned by \<open>concat\<close> has no two consecutive
  items that are both strings (invariant I1, stated through \<open>no_adjacent_text\<close> and
  position by position), and it gets there by coalescing, not by dropping: every
  character and every node of the arguments is in the result, in order; a string that
  arrives when the result so far ends in a string is appended to that string; and
  \<open>concat("a", "b")\<close> is the single string \<open>"ab"\<close> (scenario A).
\<close>

theorem concat_no_adjacent_text:
  "no_adjacent_text (concat_children blockNodes) \<and>
   (\<forall>i. Suc i < length (concat_children blockNodes) \<longrightarrow>
      \<not> (is_string (concat_children blockNodes ! i) \<and>
         is_string (concat_children blockNodes ! Suc i))) \<and>
   content (concat_children blockNodes) = content (flatten_args blockNodes) \<and>
   (concat_children blockNodes = r @ [Str t] \<longrightarrow>
      concat_children (blockNodes @ [One (Str s)]) = r @ [Str (t @ s)]) \<and>
   concat_children [One (Str a), One (Str b)] = [Str (a @ b)]"
proof -
  have 1: "no_adjacent_text (concat_children blockNodes)"
    by (simp add: concat_children_def no_adjacent_text_outer)
  from 1 have 2: "\<forall>i. Suc i < length (concat_children blockNodes) \<longrightarrow>
      \<not> (is_string (concat_children blockNodes ! i) \<and>
         is_string (concat_children blockNodes ! Suc i))"
    by (simp only: no_adjacent_text_nth)
  have 3: "content (concat_children blockNodes) = content (flatten_args blockNodes)"
    using content_inner [of "[]" "flatten_args blockNodes"]
    by (simp add: concat_children_def concat_outer_flatten content_def)
  have 4: "concat_children blockNodes = r @ [Str t] \<longrightarrow>
      concat_children (blockNodes @ [One (Str s)]) = r @ [Str (t @ s)]"
  proof
    assume h: "concat_children blockNodes = r @ [Str t]"
    have "concat_children (blockNodes @ [One (Str s)])
            = concat_step (concat_children blockNodes) (Str s)"
      by (simp add: concat_children_def concat_outer_append)
    also have "\<dots> = r @ [Str (t @ s)]"
      by (simp only: h concat_step_merge)
    finally show "concat_children (blockNodes @ [One (Str s)]) = r @ [Str (t @ s)]" .
  qed
  have 5: "concat_children [One (Str a), One (Str b)] = [Str (a @ b)]"
    by (simp add: concat_children_def concat_step_def)
  from 1 2 3 4 5 show ?thesis by blast
qed

theorem concat_no_adjacent_text_witness:
  "concat_children [One (Str ''a''), Many [Str ''b'', Node (7::nat)], One (Str ''c'')]
     = [Str ''ab'', Node 7] @ [Str ''c''] \<and>
   Suc 0 < length (concat_children [One (Str ''a''), Many [Str ''b'', Node (7::nat)], One (Str ''c'')]) \<and>
   concat_children [One (Str ''a''), Many [Str ''b'', Node (7::nat)], One (Str ''c'')] ! 0 = Str ''ab'' \<and>
   \<not> (is_string (concat_children [One (Str ''a''), Many [Str ''b'', Node (7::nat)], One (Str ''c'')] ! 0) \<and>
      is_string (concat_children [One (Str ''a''), Many [Str ''b'', Node (7::nat)], One (Str ''c'')] ! Suc 0)) \<and>
   content (concat_children [One (Str ''a''), Many [Str ''b'', Node (7::nat)], One (Str ''c'')])
     = [Inl CHR ''a'', Inl CHR ''b'', Inr 7, Inl CHR ''c''] \<and>
   concat_children ([One (Str ''a''), Many [Str ''b'', Node (7::nat)], One (Str ''c'')] @ [One (Str ''d'')])
     = [Str ''ab'', Node 7] @ [Str (''c'' @ ''d'')]"
proof -
  let ?args = "[One (Str ''a''), Many [Str ''b'', Node (7::nat)], One (Str ''c'')]"
  let ?r = "concat_children ?args"
  have r: "?r = [Str ''ab'', Node 7] @ [Str ''c'']"
    by (simp add: concat_children_def concat_step_def)
  then have l: "Suc 0 < length ?r" by simp
  note inst = concat_no_adjacent_text [of ?args "[Str ''ab'', Node 7]" "''c''" "''d''"]
  from inst have "Suc 0 < length ?r \<longrightarrow> \<not> (is_string (?r ! 0) \<and> is_string (?r ! Suc 0))"
    by blast
  with l have i: "\<not> (is_string (?r ! 0) \<and> is_string (?r ! Suc 0))" by blast
  from inst have "content ?r = content (flatten_args ?args)" by blast
  then have c: "content ?r = [Inl CHR ''a'', Inl CHR ''b'', Inr 7, Inl CHR ''c'']"
    by (simp add: flatten_args_def content_def)
  from inst r have m: "concat_children (?args @ [One (Str ''d'')])
      = [Str ''ab'', Node 7] @ [Str (''c'' @ ''d'')]"
    by blast
  from r have z: "?r ! 0 = Str ''ab''" by simp
  from r l z i c m show ?thesis by blast
qed

text \<open>
  C2. The array returned by \<open>concat\<close> is the flattening of the arguments in argument
  order and item order, with neighbouring strings coalesced and nothing else changed.
  Hence the content read in order (characters and nodes) is that of the flattened
  arguments, the node items are exactly the node items of the arguments in their order
  (a node is never merged), an empty array among the arguments contributes nothing,
  and \<open>concat(["a", x], "b")\<close> is \<open>["a", x, "b"]\<close> (scenario B).
\<close>

theorem concat_flatten_coalesce:
  "concat_children blockNodes = coalesce (flatten_args blockNodes) \<and>
   content (concat_children blockNodes) = content (flatten_args blockNodes) \<and>
   nodes_of (concat_children blockNodes) = nodes_of (flatten_args blockNodes) \<and>
   concat_children (before @ Many [] # after) = concat_children (before @ after) \<and>
   concat_children [Many [Str ''a'', Node x], One (Str ''b'')] = [Str ''a'', Node x, Str ''b'']"
proof -
  have 1: "concat_children blockNodes = coalesce (flatten_args blockNodes)"
    by (rule concat_children_coalesce)
  have 2: "content (concat_children blockNodes) = content (flatten_args blockNodes)"
    using content_inner [of "[]" "flatten_args blockNodes"]
    by (simp add: concat_children_def concat_outer_flatten content_def)
  have 3: "nodes_of (concat_children blockNodes) = nodes_of (flatten_args blockNodes)"
    by (simp add: concat_children_def concat_outer_flatten nodes_of_inner)
  have 4: "concat_children (before @ Many [] # after) = concat_children (before @ after)"
    by (simp add: concat_children_coalesce flatten_args_def)
  have 5: "concat_children [Many [Str ''a'', Node x], One (Str ''b'')]
             = [Str ''a'', Node x, Str ''b'']"
    by (simp add: concat_children_def concat_step_def)
  from 1 2 3 4 5 show ?thesis by blast
qed

text \<open>
  C3. \<open>concat\<close> is idempotent as a normalizer: \<open>concat(concat(a, b))\<close> equals
  \<open>concat(a, b)\<close>, for arguments \<open>a\<close> and \<open>b\<close> that are arrays or single items.
\<close>

theorem concat_idempotent:
  "concat_children [Many (concat_children [a, b])] = concat_children [a, b]"
  by (simp add: concat_children_coalesce flatten_args_def coalesce_idem)

text \<open>
  C9. \<open>concat\<close> is associative in its variadic form: \<open>concat(concat(a, b), c)\<close> and
  \<open>concat(a, concat(b, c))\<close> both equal \<open>concat(a, b, c)\<close>.
\<close>

theorem concat_associative:
  "concat_children [Many (concat_children [a, b]), c] = concat_children [a, b, c] \<and>
   concat_children [a, Many (concat_children [b, c])] = concat_children [a, b, c]"
proof
  show "concat_children [Many (concat_children [a, b]), c] = concat_children [a, b, c]"
    using coalesce_append_left [of "castArray a @ castArray b" "castArray c"]
    by (simp add: concat_children_coalesce flatten_args_def)
  show "concat_children [a, Many (concat_children [b, c])] = concat_children [a, b, c]"
    using coalesce_append_right [of "castArray a" "castArray b @ castArray c"]
    by (simp add: concat_children_coalesce flatten_args_def)
qed

section \<open>Properties of fromDOM\<close>


lemma converted_items_Cons:
  "converted_items conv (d # ds) =
     (case conv d of Inl error \<Rightarrow> [] | Inr c \<Rightarrow> [c]) @ converted_items conv ds"
  by (simp add: converted_items_def)


lemma fromDOM_loop_eq:
  "fromDOM_loop conv result ds = Inr (result @ converted_items conv ds)"
proof (induction ds arbitrary: result)
  case Nil
  show ?case by (simp add: converted_items_def)
next
  case (Cons d ds)
  show ?case
  proof (cases "conv d")
    case (Inl error)
    then show ?thesis
      by (simp add: Cons.IH try_catch_def push_converted_def converted_items_Cons)
  next
    case (Inr c)
    then show ?thesis
      by (simp add: Cons.IH try_catch_def push_converted_def converted_items_Cons)
  qed
qed

lemma fromDOM_eq: "fromDOM conv (ArrayLike ds) = Inr (converted_items conv ds)"
  by (simp add: fromDOM_loop_eq)


text \<open>
  C4. \<open>fromDOM\<close> never throws on any collection, whatever the converter does on the
  single nodes. On an array-like collection it returns the items of the nodes whose
  conversion succeeds, in input order, and a node whose conversion throws contributes
  nothing. On an iterable that is not array-like it returns the empty array whatever
  its members are: for a \<open>Set\<close> of two text nodes, both of which convert, the result is
  \<open>[]\<close> and not the two strings.
\<close>

theorem fromDOM_unindexed_iterable:
  "(\<exists>result. fromDOM node_fromDOM domNodes = Inr result) \<and>
   fromDOM node_fromDOM (ArrayLike ds) = Inr (converted_items node_fromDOM ds) \<and>
   fromDOM node_fromDOM (Unindexed ds) = Inr [] \<and>
   fromDOM spec_node_fromDOM (Unindexed [TextNode ''x'', TextNode ''y'']) = Inr [] \<and>
   converted_items spec_node_fromDOM (members (Unindexed [TextNode ''x'', TextNode ''y'']))
     = [Str ''x'', Str ''y''] \<and>
   fromDOM spec_node_fromDOM (Unindexed [TextNode ''x'', TextNode ''y''])
     \<noteq> Inr (converted_items spec_node_fromDOM
              (members (Unindexed [TextNode ''x'', TextNode ''y''])))"
proof -
  have 1: "\<exists>result. fromDOM node_fromDOM domNodes = Inr result"
    by (cases domNodes) (simp_all add: fromDOM_loop_eq)
  have 2: "fromDOM node_fromDOM (ArrayLike ds) = Inr (converted_items node_fromDOM ds)"
    by (rule fromDOM_eq)
  have 3: "fromDOM node_fromDOM (Unindexed ds) = Inr []"
    by simp
  have 4: "fromDOM spec_node_fromDOM (Unindexed [TextNode ''x'', TextNode ''y'']) = Inr []"
    by simp
  have 5: "converted_items spec_node_fromDOM (members (Unindexed [TextNode ''x'', TextNode ''y'']))
             = [Str ''x'', Str ''y'']"
    by (simp add: converted_items_def)
  have 6: "fromDOM spec_node_fromDOM (Unindexed [TextNode ''x'', TextNode ''y''])
     \<noteq> Inr (converted_items spec_node_fromDOM
              (members (Unindexed [TextNode ''x'', TextNode ''y''])))"
    by (simp add: converted_items_def)
  from 1 2 3 4 5 6 show ?thesis by blast
qed



section \<open>Properties of matcher\<close>

text \<open>
  C6. The function returned by \<open>matcher\<close>: with a non-empty selector the match target
  is what the root's \<open>querySelector\<close> returns for it, with no selector (\<open>null\<close> or the
  empty string) it is the root itself; when there is a target the result is \<open>fromDOM\<close>
  of its child nodes, and when a selector was given and nothing matches it is the empty
  array.
\<close>

theorem matcher_behaviour:
  "(selector = Some s \<and> s \<noteq> [] \<and> querySelector domNode s = Some m \<longrightarrow>
      matcher querySelector childNodes node_fromDOM selector domNode
        = fromDOM node_fromDOM (ArrayLike (childNodes m))) \<and>
   (selector = Some s \<and> s \<noteq> [] \<and> querySelector domNode s = None \<longrightarrow>
      matcher querySelector childNodes node_fromDOM selector domNode = Inr []) \<and>
   (selector = None \<or> selector = Some [] \<longrightarrow>
      matcher querySelector childNodes node_fromDOM selector domNode
        = fromDOM node_fromDOM (ArrayLike (childNodes domNode)))"
  by (auto simp: matcher_def)

theorem matcher_behaviour_witness:
  "matcher spec_querySelector dom_childNodes spec_node_fromDOM (Some ''.body'')
     (ElementNode ''div'' ''post''
        [TextNode ''t'', ElementNode ''p'' ''body'' [TextNode ''x'', ElementNode ''em'' [] []]])
     = Inr [Str ''x'', Node ''em''] \<and>
   matcher spec_querySelector dom_childNodes spec_node_fromDOM (Some ''.body'')
     (ElementNode ''div'' ''post'' [TextNode ''t''])
     = Inr [] \<and>
   matcher spec_querySelector dom_childNodes spec_node_fromDOM None
     (ElementNode ''div'' ''post'' [TextNode ''t''])
     = Inr [Str ''t''] \<and>
   matcher spec_querySelector dom_childNodes spec_node_fromDOM (Some [])
     (ElementNode ''div'' ''post'' [TextNode ''t''])
     = Inr [Str ''t'']"
proof -
  let ?p = "ElementNode ''p'' ''body'' [TextNode ''x'', ElementNode ''em'' [] []]"
  let ?big = "ElementNode ''div'' ''post'' [TextNode ''t'', ?p]"
  let ?small = "ElementNode ''div'' ''post'' [TextNode ''t'']"
  have q1: "spec_querySelector ?big ''.body'' = Some ?p"
    by (simp add: spec_querySelector_def)
  have q2: "spec_querySelector ?small ''.body'' = None"
    by (simp add: spec_querySelector_def)
  have f1: "fromDOM spec_node_fromDOM (ArrayLike (dom_childNodes ?p)) = Inr [Str ''x'', Node ''em'']"
    by (simp add: fromDOM_loop_eq converted_items_def)
  have f2: "fromDOM spec_node_fromDOM (ArrayLike (dom_childNodes ?small)) = Inr [Str ''t'']"
    by (simp add: fromDOM_loop_eq converted_items_def)
  from matcher_behaviour [of "Some ''.body''" "''.body''" spec_querySelector ?big ?p
      dom_childNodes spec_node_fromDOM] q1 f1
  have 1: "matcher spec_querySelector dom_childNodes spec_node_fromDOM (Some ''.body'') ?big
             = Inr [Str ''x'', Node ''em'']"
    by simp
  from matcher_behaviour [of "Some ''.body''" "''.body''" spec_querySelector ?small ?p
      dom_childNodes spec_node_fromDOM] q2
  have 2: "matcher spec_querySelector dom_childNodes spec_node_fromDOM (Some ''.body'') ?small
             = Inr []"
    by simp
  from matcher_behaviour [of None "[]" spec_querySelector ?small ?p
      dom_childNodes spec_node_fromDOM] f2
  have 3: "matcher spec_querySelector dom_childNodes spec_node_fromDOM None ?small
             = Inr [Str ''t'']"
    by simp
  from matcher_behaviour [of "Some []" "[]" spec_querySelector ?small ?p
      dom_childNodes spec_node_fromDOM] f2
  have 4: "matcher spec_querySelector dom_childNodes spec_node_fromDOM (Some []) ?small
             = Inr [Str ''t'']"
    by simp
  from 1 2 3 4 show ?thesis by blast
qed

section \<open>Properties of toText\<close>

lemma join_empty: "join [] xs = List.concat xs"
  by (induction xs rule: induct_list012) simp_all

lemma spec_getTextElements_text: "spec_getTextElements (map Str ss) = ss"
  by (induction ss) (simp_all add: spec_getTextElements_def)

text \<open>
  C7. \<open>toText\<close> joins what the text extraction returns with no separator and changes
  no character. So, whenever the extraction returns the strings \<open>s1, \<dots>, sn\<close> for the
  sequence made of exactly these strings, \<open>toText\<close> returns their concatenation.
\<close>

theorem toText_pure_text:
  "toText getTextElements children = List.concat (getTextElements children) \<and>
   (getTextElements (map Str ss) = ss \<longrightarrow>
      toText getTextElements (map Str ss) = List.concat ss)"
  by (simp add: toText_def getSerializeCapableElement_def join_empty)

theorem toText_pure_text_witness:
  "spec_getTextElements (map Str [''Hi '', '' there'', [], ''!'']) = [''Hi '', '' there'', [], ''!''] \<and>
   toText spec_getTextElements (map Str [''Hi '', '' there'', [], ''!'']) = ''Hi  there!'' \<and>
   toText spec_getTextElements [Str ''Hi '', Node (WPNode ''em'' [] [Str ''there''])] = ''Hi there''"
proof -
  have h: "spec_getTextElements (map Str [''Hi '', '' there'', [], ''!''])
             = [''Hi '', '' there'', [], ''!'']"
    by (rule spec_getTextElements_text)
  with toText_pure_text [of spec_getTextElements "[]" "[''Hi '', '' there'', [], ''!'']"]
  have "toText spec_getTextElements (map Str [''Hi '', '' there'', [], ''!'']) = ''Hi  there!''"
    by simp
  moreover
  from toText_pure_text [of spec_getTextElements
      "[Str ''Hi '', Node (WPNode ''em'' [] [Str ''there''])]" "[]"]
  have "toText spec_getTextElements [Str ''Hi '', Node (WPNode ''em'' [] [Str ''there''])]
          = ''Hi there''"
    by (simp add: spec_getTextElements_def)
  ultimately show ?thesis using h by blast
qed

section \<open>concat and the store\<close>

lemma concat_inner_h_eq:
  assumes "result < length h" "blockNode < length h" "result \<noteq> blockNode"
    and "h ! blockNode = Arr items" "h ! result = Arr r" "j \<le> length items"
  shows "concat_inner_h h result blockNode j
           = Some (h[result := Arr (concat_inner r (drop j items))])"
  using assms
proof (induction "length items - j" arbitrary: h r j)
  case 0
  then have j: "j = length items" by simp
  have "h[result := Arr r] = h"
    using "0.prems" by (metis list_update_id)
  with 0 j show ?case
    by (subst concat_inner_h.simps) (simp add: lookup_def)
next
  case (Suc k)
  then have j: "j < length items" by simp
  let ?r1 = "concat_step r (items ! j)"
  let ?h1 = "h[result := Arr ?r1]"
  have step: "concat_inner_h h result blockNode j = concat_inner_h ?h1 result blockNode (Suc j)"
    using Suc.prems j by (subst concat_inner_h.simps) (simp add: lookup_def)
  have "concat_inner_h ?h1 result blockNode (Suc j)
          = Some (?h1[result := Arr (concat_inner ?r1 (drop (Suc j) items))])"
  proof (rule Suc.hyps(1))
    show "k = length items - Suc j" using Suc.hyps(2) by simp
    show "result < length ?h1" "blockNode < length ?h1" using Suc.prems by simp_all
    show "result \<noteq> blockNode" by fact
    show "?h1 ! blockNode = Arr items" using Suc.prems by simp
    show "?h1 ! result = Arr ?r1" using Suc.prems by simp
    show "Suc j \<le> length items" using j by simp
  qed
  moreover have "drop j items = items ! j # drop (Suc j) items"
    using j by (simp add: Cons_nth_drop_Suc)
  ultimately show ?case using step by simp
qed


lemma castArray_h_cases:
  assumes "valid_ref h0 v" "take (length h0) h = h0" "length h0 \<le> length h"
  shows "\<exists>h1 blockNode. castArray_h h v = Some (h1, blockNode) \<and>
           blockNode < length h1 \<and> length h \<le> length h1 \<and> take (length h) h1 = h \<and>
           (blockNode < length h0 \<or> length h \<le> blockNode) \<and>
           h1 ! blockNode = Arr (castArray (arg_of h0 v))"
proof (cases v)
  case (Str s)
  then show ?thesis
    by (simp add: castArray_h_def alloc_def arg_of_def)
next
  case (Node a)
  with assms have a: "a < length h0" by (simp add: valid_ref_def)
  with assms have ha: "h ! a = h0 ! a"
    by (metis nth_take)
  from a assms have la: "lookup h a = Some (h0 ! a)" "lookup h0 a = Some (h0 ! a)"
    by (simp_all add: lookup_def ha)
  show ?thesis
  proof (cases "h0 ! a")
    case (Arr items)
    with Node la a assms ha show ?thesis
      by (simp add: castArray_h_def arg_of_def)
  next
    case (Obj t props)
    with Node la a assms show ?thesis
      by (simp add: castArray_h_def arg_of_def alloc_def)
  qed
qed

lemma concat_outer_h_eq:
  assumes "list_all (valid_ref h0) blockNodes"
    and "take (length h0) h = h0" "length h0 < length h" "h ! length h0 = Arr r"
  shows "\<exists>h'. concat_outer_h h (length h0) blockNodes = Some h' \<and>
           take (length h0) h' = h0 \<and> length h0 < length h' \<and>
           h' ! length h0 = Arr (concat_outer r (map (arg_of h0) blockNodes))"
  using assms
proof (induction blockNodes arbitrary: h r)
  case Nil
  then show ?case by simp
next
  case (Cons v blockNodes)
  let ?n = "length h0"
  from Cons.prems have v: "valid_ref h0 v" and rest: "list_all (valid_ref h0) blockNodes"
    by simp_all
  from castArray_h_cases [OF v Cons.prems(2)] Cons.prems(3)
  obtain h1 blockNode where c: "castArray_h h v = Some (h1, blockNode)"
    and b: "blockNode < length h1" and l: "length h \<le> length h1"
    and t: "take (length h) h1 = h"
    and f: "blockNode < ?n \<or> length h \<le> blockNode"
    and items: "h1 ! blockNode = Arr (castArray (arg_of h0 v))"
    by auto
  from f Cons.prems(3) have ne: "?n \<noteq> blockNode" by auto
  from l Cons.prems(3) have n1: "?n < length h1" by simp
  from t Cons.prems(3) have same: "h1 ! ?n = h ! ?n"
    by (metis nth_take)
  with Cons.prems(4) have r1: "h1 ! ?n = Arr r" by simp
  from t Cons.prems(2,3) have t1: "take ?n h1 = h0"
    by (metis less_imp_le_nat min.absorb2 take_take min.commute)
  let ?r2 = "concat_inner r (castArray (arg_of h0 v))"
  let ?h2 = "h1[?n := Arr ?r2]"
  have inner: "concat_inner_h h1 ?n blockNode 0 = Some ?h2"
    using concat_inner_h_eq [OF n1 b ne items r1, of 0] by simp
  have "\<exists>h'. concat_outer_h ?h2 ?n blockNodes = Some h' \<and>
           take ?n h' = h0 \<and> ?n < length h' \<and>
           h' ! ?n = Arr (concat_outer ?r2 (map (arg_of h0) blockNodes))"
  proof (rule Cons.IH [OF rest])
    show "take ?n ?h2 = h0" using t1 by simp
    show "?n < length ?h2" using n1 by simp
    show "?h2 ! ?n = Arr ?r2" using n1 by simp
  qed
  with c inner show ?case by simp
qed

text \<open>
  C8. \<open>concat\<close> mutates none of its inputs. From any store and any arguments that are
  strings or references into that store, the call returns; every object of the store
  before the call (the argument arrays, their node objects, anything else) is the same
  after it; the array returned lies at an address that did not exist before the call,
  so it is none of the inputs; and it holds what the value-level \<open>concat\<close> computes from
  the arguments as they were before the call.
\<close>

theorem concat_h_frame:
  assumes "list_all (valid_ref h) blockNodes"
  shows "\<exists>h' result.
           concat_h h blockNodes = Some (h', result) \<and>
           take (length h) h' = h \<and>
           result = length h \<and>
           lookup h' result = Some (Arr (concat_children (map (arg_of h) blockNodes)))"
proof -
  from concat_outer_h_eq [OF assms, of "h @ [Arr []]" "[]"]
  obtain h' where "concat_outer_h (h @ [Arr []]) (length h) blockNodes = Some h'"
    and "take (length h) h' = h" and "length h < length h'"
    and "h' ! length h = Arr (concat_outer [] (map (arg_of h) blockNodes))"
    by auto
  then show ?thesis
    by (simp add: concat_h_def alloc_def lookup_def concat_children_def)
qed

theorem concat_h_frame_witness:
  "\<exists>h'. concat_h [Arr [Str ''a'', Node 1], Obj ''em'' [], Arr [Str ''b'']]
            [Node 0, Str ''c'', Node 2, Node 1, Node 0] = Some (h', 3) \<and>
         take 3 h' = [Arr [Str ''a'', Node 1], Obj ''em'' [], Arr [Str ''b'']] \<and>
         lookup h' 3 = Some (Arr [Str ''a'', Node 1, Str ''cb'', Node 1, Str ''a'', Node 1])"
proof -
  let ?h = "[Arr [Str ''a'', Node 1], Obj ''em'' [], Arr [Str ''b'']]"
  let ?args = "[Node 0, Str ''c'', Node 2, Node 1, Node 0] :: val list"
  have v: "list_all (valid_ref ?h) ?args"
    by (simp add: valid_ref_def)
  have r: "concat_children (map (arg_of ?h) ?args)
             = [Str ''a'', Node 1, Str ''cb'', Node 1, Str ''a'', Node 1]"
    by (simp add: arg_of_def lookup_def concat_children_def concat_step_def)
  have len: "length ?h = 3" by simp
  from concat_h_frame [OF v]
  obtain h' result where a: "concat_h ?h ?args = Some (h', result)"
    and b: "take (length ?h) h' = ?h"
    and c: "result = length ?h"
    and d: "lookup h' result = Some (Arr (concat_children (map (arg_of ?h) ?args)))"
    by blast
  from c have c3: "result = 3" by (simp only: len)
  from a have "concat_h ?h ?args = Some (h', 3)" by (simp only: c3)
  moreover from b have "take 3 h' = ?h" by (simp only: len)
  moreover from d have "lookup h' 3
      = Some (Arr [Str ''a'', Node 1, Str ''cb'', Node 1, Str ''a'', Node 1])"
    by (simp only: c3 r)
  ultimately show ?thesis by blast
qed

text \<open>
  C10. Called with no argument, \<open>concat\<close> returns an empty array and does not throw:
  neither loop body runs. Over a store, the call returns a new empty array and leaves
  the store as it was.
\<close>

theorem concat_no_arguments:
  "concat_children [] = [] \<and>
   concat_h h [] = Some (h @ [Arr []], length h)"
  by (simp add: concat_children_def concat_h_def alloc_def)

end
